theory Spec2Isabelle
  imports Main "HOL-Library.Sublist"
begin

section \<open>JavaScript values\<close>

text \<open>
  The plugin (\<^verbatim>\<open>src/index.js\<close>) handles untyped JavaScript values: the parsed
  command-line arguments, environment strings and the status objects sent over the
  IPC channel. Numbers are modelled by the integers (ports, delays), rendered in decimal
  as JavaScript renders them below \<open>10\<^sup>2\<^sup>1\<close>; an object is an association list, which
  keeps the order in which its keys were written.
\<close>

datatype jsval =
    JUndefined
  | JNull
  | JBool bool
  | JNum int
  | JStr string
  | JArr "jsval list"
  | JObj "(string \<times> jsval) list"

text \<open>Truthiness, as tested by \<^verbatim>\<open>if (v)\<close>, \<^verbatim>\<open>!v\<close> and \<^verbatim>\<open>a || b\<close>.\<close>

fun truthy :: "jsval \<Rightarrow> bool" where
  "truthy JUndefined = False"
| "truthy JNull = False"
| "truthy (JBool b) = b"
| "truthy (JNum n) = (n \<noteq> 0)"
| "truthy (JStr s) = (s \<noteq> [])"
| "truthy (JArr xs) = True"
| "truthy (JObj kvs) = True"

text \<open>\<^verbatim>\<open>a || b\<close>: the left operand when it is truthy, the right one otherwise.\<close>

definition js_or :: "jsval \<Rightarrow> jsval \<Rightarrow> jsval" where
  "js_or a b = (if truthy a then a else b)"

text \<open>Decimal rendering of a number, as a template literal or \<^verbatim>\<open>join\<close> produces it.\<close>

definition digit_char :: "nat \<Rightarrow> char" where
  "digit_char d = ''0123456789'' ! d"

fun nat_to_dec :: "nat \<Rightarrow> string" where
  "nat_to_dec n = (if n < 10 then [digit_char n] else nat_to_dec (n div 10) @ [digit_char (n mod 10)])"

declare nat_to_dec.simps [simp del]

definition int_to_dec :: "int \<Rightarrow> string" where
  "int_to_dec i = (if i < 0 then CHR ''-'' # nat_to_dec (nat (- i)) else nat_to_dec (nat i))"

fun intercalate :: "string \<Rightarrow> string list \<Rightarrow> string" where
  "intercalate sep [] = []"
| "intercalate sep [x] = x"
| "intercalate sep (x # y # ys) = x @ sep @ intercalate sep (y # ys)"

text \<open>
  \<^verbatim>\<open>String(v)\<close>, the conversion a template literal \<^verbatim>\<open>${v}\<close> applies, and the
  rendering of one element by \<^verbatim>\<open>Array.prototype.join\<close>: \<^verbatim>\<open>undefined\<close> and
  \<^verbatim>\<open>null\<close> elements give the empty string, every other element its string. An array
  is converted by joining it with commas.
\<close>

fun toString :: "jsval \<Rightarrow> string" and join_elem :: "jsval \<Rightarrow> string" where
  "toString JUndefined = ''undefined''"
| "toString JNull = ''null''"
| "toString (JBool b) = (if b then ''true'' else ''false'')"
| "toString (JNum n) = int_to_dec n"
| "toString (JStr s) = s"
| "toString (JArr xs) = intercalate '','' (map join_elem xs)"
| "toString (JObj kvs) = ''[object Object]''"
| "join_elem JUndefined = []"
| "join_elem JNull = []"
| "join_elem (JBool b) = toString (JBool b)"
| "join_elem (JNum n) = toString (JNum n)"
| "join_elem (JStr s) = toString (JStr s)"
| "join_elem (JArr xs) = toString (JArr xs)"
| "join_elem (JObj kvs) = toString (JObj kvs)"

text \<open>\<^verbatim>\<open>array.join(sep)\<close>\<close>

definition js_join :: "string \<Rightarrow> jsval list \<Rightarrow> string" where
  "js_join sep vs = intercalate sep (map join_elem vs)"

section \<open>Command options and the flattening of the arguments\<close>

text \<open>
  \<^verbatim>\<open>COMMAND_OPTIONS\<close> (lines 10-15): an object literal; \<^verbatim>\<open>for (const key in ...)\<close>
  visits its keys in the order written.
\<close>

definition COMMAND_OPTIONS :: "(string \<times> string) list" where
  "COMMAND_OPTIONS =
     [(''--mock'', ''enables mocks''),
      (''--enable-engine'', ''enables Apollo Engine''),
      (''--delay'', ''delays run by a small duration''),
      (''--port'', ''specify server port'')]"

text \<open>
  The parsed arguments of a command: an object, read only through
  \<^verbatim>\<open>hasOwnProperty\<close> and property access, hence a map from names to values.
\<close>

type_synonym args = "string \<rightharpoonup> jsval"

text \<open>What a call can throw.\<close>

datatype js_error = TypeError

text \<open>
  \<^verbatim>\<open>args.hasOwnProperty(k)\<close> (line 78) is a method call on the arguments object
  itself. When the object has an own property named \<^verbatim>\<open>hasOwnProperty\<close> (the flag
  \<^verbatim>\<open>--hasOwnProperty\<close>), that property shadows the inherited method; no value of
  the arguments is a function, so the call throws a \<^verbatim>\<open>TypeError\<close>.
\<close>

definition hasOwnProperty :: "args \<Rightarrow> string \<Rightarrow> js_error + bool" where
  "hasOwnProperty a k =
     (case a ''hasOwnProperty'' of
        Some shadow \<Rightarrow> Inl TypeError
      | None \<Rightarrow> Inr (a k \<noteq> None))"

text \<open>Property access \<^verbatim>\<open>args[k]\<close>: \<^verbatim>\<open>undefined\<close> for a missing property.\<close>

definition getProp :: "args \<Rightarrow> string \<Rightarrow> jsval" where
  "getProp a k = (case a k of None \<Rightarrow> JUndefined | Some v \<Rightarrow> v)"

text \<open>\<^verbatim>\<open>key.substr(2)\<close>\<close>

definition substr2 :: "string \<Rightarrow> string" where
  "substr2 key = drop 2 key"

text \<open>
  Lines 75-85: the loop over the keys of \<^verbatim>\<open>COMMAND_OPTIONS\<close>, pushing onto
  \<^verbatim>\<open>flatArgs\<close>. The pushed value is the argument's value itself, unconverted. A
  throw of \<^verbatim>\<open>hasOwnProperty\<close> ends the loop, and the command, with that error.
\<close>

fun flatArgs_loop :: "string list \<Rightarrow> args \<Rightarrow> jsval list \<Rightarrow> js_error + jsval list" where
  "flatArgs_loop [] a acc = Inr acc"
| "flatArgs_loop (key # keys) a acc =
     (let shortKey = substr2 key in
      case hasOwnProperty a shortKey of
        Inl e \<Rightarrow> Inl e
      | Inr has \<Rightarrow>
          if has then
            (let acc1 = acc @ [JStr key];
                 v = getProp a shortKey
             in if v \<noteq> JBool True then flatArgs_loop keys a (acc1 @ [v])
                else flatArgs_loop keys a acc1)
          else flatArgs_loop keys a acc)"

definition flatArgs :: "args \<Rightarrow> js_error + jsval list" where
  "flatArgs a = flatArgs_loop (map fst COMMAND_OPTIONS) a []"

text \<open>
  The contribution of one declared flag, in the words of the specification: nothing
  when the flag is absent, its name alone when its value is boolean true, its name
  followed by the value otherwise.
\<close>

definition flag_contribution :: "args \<Rightarrow> string \<Rightarrow> jsval list" where
  "flag_contribution a flag =
     (case a (drop 2 flag) of
        None \<Rightarrow> []
      | Some v \<Rightarrow> if v = JBool True then [JStr flag] else [JStr flag, v])"

section \<open>The IPC messenger: module state and \<^verbatim>\<open>sendIpcMessage\<close>\<close>

text \<open>
  Line 17 declares the module variables \<^verbatim>\<open>ipc\<close> and \<^verbatim>\<open>ipcTimer\<close>.
  \<^verbatim>\<open>ipc\<close> is either unset (\<^verbatim>\<open>undefined\<close> at first, \<^verbatim>\<open>null\<close> after the
  idle timer ran) or holds a messenger; only its truthiness is ever tested.
  \<^verbatim>\<open>ipcTimer\<close> is the pending timeout, recorded by the instant at which it is due
  (time is a logical clock in milliseconds; \<^verbatim>\<open>clearTimeout\<close> followed by
  \<^verbatim>\<open>setTimeout\<close> leaves exactly one pending timeout). The calls made on the
  messenger are logged in order.
\<close>

datatype ipc_call = IpcNew | IpcConnect | IpcSend jsval | IpcDisconnect

record module_state =
  ipc :: bool
  ipcTimer :: "nat option"
  ipc_calls :: "ipc_call list"

definition module_init :: module_state where
  "module_init = \<lparr>ipc = False, ipcTimer = None, ipc_calls = []\<rparr>"

text \<open>
  Lines 218-233. The first argument tells whether the host's shared utilities export
  an \<^verbatim>\<open>IpcMessenger\<close> (the transport); the second is the current instant.
\<close>

definition sendIpcMessage ::
  "bool \<Rightarrow> nat \<Rightarrow> jsval \<Rightarrow> 'a module_state_scheme \<Rightarrow> 'a module_state_scheme" where
  "sendIpcMessage hasIpcMessenger now message s =
     (let s1 = (if \<not> ipc s \<and> hasIpcMessenger
                then s\<lparr>ipc := True, ipc_calls := ipc_calls s @ [IpcNew, IpcConnect]\<rparr>
                else s)
      in if ipc s1
         then s1\<lparr>ipc_calls := ipc_calls s1 @ [IpcSend (JObj [(''org.akryum.vue-apollo'', message)])],
                 ipcTimer := Some (now + 3000)\<rparr>
         else s1)"

text \<open>Lines 228-231: the callback of the idle timer.\<close>

definition ipcTimer_callback :: "'a module_state_scheme \<Rightarrow> 'a module_state_scheme" where
  "ipcTimer_callback s = s\<lparr>ipc_calls := ipc_calls s @ [IpcDisconnect], ipc := False, ipcTimer := None\<rparr>"

text \<open>
  The event loop runs a timeout once its delay has elapsed: before an event handled
  at instant \<^verbatim>\<open>now\<close>, a pending timeout that is due at or before \<^verbatim>\<open>now\<close> has run.
\<close>

definition run_timers :: "nat \<Rightarrow> 'a module_state_scheme \<Rightarrow> 'a module_state_scheme" where
  "run_timers now s =
     (case ipcTimer s of
        None \<Rightarrow> s
      | Some due \<Rightarrow> if due \<le> now then ipcTimer_callback s else s)"

text \<open>A sequence of timed \<^verbatim>\<open>sendIpcMessage\<close> calls, each given with its instant.\<close>

fun notify_all ::
  "bool \<Rightarrow> (nat \<times> jsval) list \<Rightarrow> 'a module_state_scheme \<Rightarrow> 'a module_state_scheme" where
  "notify_all hasIpcMessenger [] s = s"
| "notify_all hasIpcMessenger ((t, m) # ms) s =
     notify_all hasIpcMessenger ms (sendIpcMessage hasIpcMessenger t m (run_timers t s))"

text \<open>Property read \<^verbatim>\<open>o.k\<close> on a value: \<^verbatim>\<open>undefined\<close> when the key is missing.\<close>

fun getField :: "jsval \<Rightarrow> string \<Rightarrow> jsval" where
  "getField (JObj kvs) k = (case map_of kvs k of None \<Rightarrow> JUndefined | Some v \<Rightarrow> v)"
| "getField v k = JUndefined"

fun hasField :: "jsval \<Rightarrow> string \<Rightarrow> bool" where
  "hasField (JObj kvs) k = (map_of kvs k \<noteq> None)"
| "hasField v k = False"

text \<open>The payloads a log of calls has sent, unwrapped from the namespace key.\<close>

fun sent_payloads :: "ipc_call list \<Rightarrow> jsval list" where
  "sent_payloads [] = []"
| "sent_payloads (IpcSend m # cs) = getField m ''org.akryum.vue-apollo'' # sent_payloads cs"
| "sent_payloads (c # cs) = sent_payloads cs"

section \<open>Paths\<close>

text \<open>
  The watch settings are built with \<^verbatim>\<open>path.join\<close> and the host's
  \<^verbatim>\<open>api.resolve\<close>, which is \<^verbatim>\<open>path.resolve\<close> applied to the project's
  directory. Both are functions of the runtime's POSIX path library, described here
  on the segments between the slashes of a path.
\<close>

fun split_on :: "char \<Rightarrow> string \<Rightarrow> string list" where
  "split_on c [] = [[]]"
| "split_on c (x # xs) =
     (if x = c then [] # split_on c xs
      else (case split_on c xs of
              [] \<Rightarrow> [[x]]
            | seg # segs \<Rightarrow> (x # seg) # segs))"

text \<open>
  One step of the library's \<^verbatim>\<open>normalizeString\<close>: an empty segment and \<^verbatim>\<open>.\<close>
  are dropped; \<^verbatim>\<open>..\<close> removes the segment before it, and is kept only where going
  above the start is allowed (a relative path); any other segment is appended.
\<close>

definition normalize_step :: "bool \<Rightarrow> string list \<Rightarrow> string \<Rightarrow> string list" where
  "normalize_step allowAboveRoot res seg =
     (if seg = [] \<or> seg = ''.'' then res
      else if seg = ''..'' then
        (if res \<noteq> [] \<and> last res \<noteq> ''..'' then butlast res
         else if allowAboveRoot then res @ [''..'']
         else res)
      else res @ [seg])"

definition normalize_segments :: "bool \<Rightarrow> string list \<Rightarrow> string list" where
  "normalize_segments allowAboveRoot segs = foldl (normalize_step allowAboveRoot) [] segs"

definition normalizeString :: "string \<Rightarrow> bool \<Rightarrow> string" where
  "normalizeString path allowAboveRoot =
     intercalate ''/'' (normalize_segments allowAboveRoot (split_on CHR ''/'' path))"

definition isAbsolute :: "string \<Rightarrow> bool" where
  "isAbsolute path = (path \<noteq> [] \<and> hd path = CHR ''/'')"

text \<open>\<^verbatim>\<open>path.normalize\<close>\<close>

definition path_normalize :: "string \<Rightarrow> string" where
  "path_normalize path =
     (if path = [] then ''.''
      else
        (let trailingSeparator = (last path = CHR ''/'');
             p = normalizeString path (\<not> isAbsolute path)
         in if p = [] then
              (if isAbsolute path then ''/'' else if trailingSeparator then ''./'' else ''.'')
            else
              (let p1 = (if trailingSeparator then p @ ''/'' else p)
               in if isAbsolute path then CHR ''/'' # p1 else p1)))"

text \<open>\<^verbatim>\<open>path.join\<close>: the non-empty arguments, joined with slashes, then normalised.\<close>

definition path_join :: "string list \<Rightarrow> string" where
  "path_join parts =
     (let joined = intercalate ''/'' (filter (\<lambda>a. a \<noteq> []) parts)
      in if joined = [] then ''.'' else path_normalize joined)"

text \<open>
  \<^verbatim>\<open>path.resolve\<close>: the arguments are taken from the right until an absolute one
  is met, the working directory coming last; empty arguments are skipped.
\<close>

fun resolve_loop :: "string list \<Rightarrow> string \<Rightarrow> string \<times> bool" where
  "resolve_loop [] resolvedPath = (resolvedPath, False)"
| "resolve_loop (p # ps) resolvedPath =
     (if p = [] then resolve_loop ps resolvedPath
      else if isAbsolute p then (p @ ''/'' @ resolvedPath, True)
      else resolve_loop ps (p @ ''/'' @ resolvedPath))"

definition path_resolve :: "string \<Rightarrow> string list \<Rightarrow> string" where
  "path_resolve cwd parts =
     (case resolve_loop (rev parts @ [cwd]) [] of
        (resolvedPath, resolvedAbsolute) \<Rightarrow>
          (let p = normalizeString resolvedPath (\<not> resolvedAbsolute)
           in if resolvedAbsolute then CHR ''/'' # p
              else if p \<noteq> [] then p else ''.''))"

section \<open>The host\<close>

text \<open>
  What the plugin is given by its host and its environment: whether yarn is the
  package manager (\<^verbatim>\<open>hasYarn()\<close>), whether the shared utilities export an
  \<^verbatim>\<open>IpcMessenger\<close>, the project's directory that \<^verbatim>\<open>api.resolve\<close> resolves
  against, and the working directory of the process. nodemon and the messenger are
  code of other packages: whether the call \<^verbatim>\<open>nodemon({...})\<close> throws, and whether
  the calls on a messenger throw, are given with the environment.
\<close>

record host =
  hasYarn :: bool
  IpcMessenger :: bool
  project_dir :: string
  cwd :: string
  nodemon_throws :: bool
  messenger_throws :: bool

text \<open>Line 20\<close>

definition cmd :: "host \<Rightarrow> string" where
  "cmd h = (if hasYarn h then ''yarn'' else ''npm'')"

definition api_resolve :: "host \<Rightarrow> string \<Rightarrow> string" where
  "api_resolve h p = path_resolve (cwd h) [project_dir h, p]"

text \<open>
  Hosts for the examples: yarn, the project in \<^verbatim>\<open>/proj\<close>, nothing throws; the
  first has a messenger, the second has none.
\<close>

definition example_host :: host where
  "example_host = \<lparr>hasYarn = True, IpcMessenger = True, project_dir = ''/proj'', cwd = ''/proj'',
     nodemon_throws = False, messenger_throws = False\<rparr>"

definition quiet_host :: host where
  "quiet_host = \<lparr>hasYarn = True, IpcMessenger = False, project_dir = ''/proj'', cwd = ''/proj'',
     nodemon_throws = False, messenger_throws = False\<rparr>"

definition DEFAULT_SERVER_FOLDER :: string where
  "DEFAULT_SERVER_FOLDER = ''./apollo-server''"

section \<open>The command \<^verbatim>\<open>apollo:watch\<close>\<close>

text \<open>The settings object passed to nodemon (lines 88-97).\<close>

record nodemon_settings =
  exec :: string
  watch :: "string list"
  ignore :: "string list"
  ext :: string

text \<open>
  \<^verbatim>\<open>baseFolder\<close> (line 70) comes from the plugin options through helpers of
  \<^verbatim>\<open>./utils\<close>; it is a parameter here, as is the list \<^verbatim>\<open>flatArgs\<close> the loop
  above has built. The path functions take strings.
\<close>

definition nodemon_config :: "host \<Rightarrow> string \<Rightarrow> jsval list \<Rightarrow> nodemon_settings" where
  "nodemon_config h baseFolder a =
     \<lparr>exec = cmd h @ '' run apollo:run --delay '' @ js_join '' '' a,
      watch = [api_resolve h baseFolder],
      ignore = [api_resolve h (path_join [baseFolder, ''live''])],
      ext = ''js mjs json graphql gql''\<rparr>"

text \<open>
  Modelled from the spec: "excluding anything under ignore" (section 4.3). What
  decides a restart is nodemon, a dependency whose code is not among the sources. A
  path is under a directory when it is the directory or continues it after a slash.
\<close>

definition under_path :: "string \<Rightarrow> string \<Rightarrow> bool" where
  "under_path dir file = (file = dir \<or> prefix (if dir = ''/'' then dir else dir @ ''/'') file)"

text \<open>
  Modelled from the spec: "files whose extension is in extensions" (section 4.3). The
  extension of a path is what follows the last dot of its last segment; the watched
  extensions are the words of the \<^verbatim>\<open>ext\<close> setting.
\<close>

definition file_extension :: "string \<Rightarrow> string" where
  "file_extension file =
     (let name = last (split_on CHR ''/'' file)
      in if CHR ''.'' \<in> set name then last (split_on CHR ''.'' name) else [])"

definition watched_extensions :: "nodemon_settings \<Rightarrow> string list" where
  "watched_extensions cfg = filter (\<lambda>x. x \<noteq> []) (split_on CHR '' '' (ext cfg))"

text \<open>
  Modelled from the spec: the FileWatcher of section 4.3 (nodemon in the repository,
  not among the sources) observes the root recursively for changes to files whose
  extension is one of the watched ones, leaving out everything under an ignore path;
  a change it lets through restarts the child.
\<close>

definition triggers_restart :: "nodemon_settings \<Rightarrow> string \<Rightarrow> bool" where
  "triggers_restart cfg file =
     (list_ex (\<lambda>root. under_path root file) (watch cfg)
      \<and> \<not> list_ex (\<lambda>ig. under_path ig file) (ignore cfg)
      \<and> file_extension file \<in> set (watched_extensions cfg))"

text \<open>
  What the handlers print, without the colours: the restart notice (line 104), the
  two lines of the crash notice (lines 112-113) and the relayed output of the child.
\<close>

datatype console_line = LogRestarting | LogCrashed | LogWaiting | LogRelay "jsval list"

datatype promise_state = Pending | Resolved | Rejected

datatype nodemon_event = Restart | Crash | Stdout "jsval list" | Stderr "jsval list" | Quit

text \<open>
  The state of the watch command: the settings nodemon was started with (none before
  that), what was printed, the promise, whether the process has exited, and whether
  the handlers of lines 103-132 are registered.
\<close>

record watch_state = module_state +
  nodemon :: "nodemon_settings option"
  console :: "console_line list"
  promise :: promise_state
  exited :: bool
  listening :: bool

text \<open>
  The promise whose body threw: it is rejected, and the statements after the throw,
  the registration of the handlers among them, have not run.
\<close>

definition rejected :: "module_state \<Rightarrow> nodemon_settings option \<Rightarrow> watch_state" where
  "rejected m cfg =
     module_state.extend m
       \<lparr>nodemon = cfg, console = [], promise = Rejected, exited = False, listening = False\<rparr>"

text \<open>
  Lines 87-133: the body of the promise, run when the promise is created. A throw
  inside it rejects the promise. The settings are built first: the path functions
  throw a \<^verbatim>\<open>TypeError\<close> for a folder that is not a string. Then nodemon is called,
  which may throw; then the first status is sent, where the first call on a throwing
  messenger (its construction when the channel is unset, \<^verbatim>\<open>send\<close> otherwise)
  throws before a module variable is assigned; then the handlers are registered.
\<close>

definition apollo_watch_promise ::
  "host \<Rightarrow> jsval \<Rightarrow> jsval list \<Rightarrow> nat \<Rightarrow> module_state \<Rightarrow> watch_state" where
  "apollo_watch_promise h baseFolder flat now m =
     (case baseFolder of
        JStr folder \<Rightarrow>
          if nodemon_throws h then rejected m None
          else if messenger_throws h \<and> (ipc m \<or> IpcMessenger h)
          then rejected m (Some (nodemon_config h folder flat))
          else
            sendIpcMessage (IpcMessenger h) now (JObj [(''error'', JBool False)])
              (module_state.extend m
                 \<lparr>nodemon = Some (nodemon_config h folder flat), console = [],
                  promise = Pending, exited = False, listening = True\<rparr>)
      | _ \<Rightarrow> rejected m None)"

text \<open>
  Lines 67-134: the command. The loop over the options runs before the promise is
  created; when it throws, the command throws and returns no promise.
\<close>

definition apollo_watch ::
  "host \<Rightarrow> jsval \<Rightarrow> args \<Rightarrow> nat \<Rightarrow> module_state \<Rightarrow> js_error + watch_state" where
  "apollo_watch h baseFolder a now m =
     (case flatArgs a of
        Inl e \<Rightarrow> Inl e
      | Inr flat \<Rightarrow> Inr (apollo_watch_promise h baseFolder flat now m))"

text \<open>Lines 103-132: the handlers registered on nodemon's events.\<close>

fun nodemon_on :: "host \<Rightarrow> nat \<Rightarrow> nodemon_event \<Rightarrow> watch_state \<Rightarrow> watch_state" where
  "nodemon_on h now Restart s =
     sendIpcMessage (IpcMessenger h) now (JObj [(''error'', JBool False)])
       (s\<lparr>console := console s @ [LogRestarting]\<rparr>)"
| "nodemon_on h now Crash s =
     sendIpcMessage (IpcMessenger h) now (JObj [(''urls'', JNull), (''error'', JBool True)])
       (s\<lparr>console := console s @ [LogCrashed, LogWaiting]\<rparr>)"
| "nodemon_on h now (Stdout xs) s = s\<lparr>console := console s @ [LogRelay xs]\<rparr>"
| "nodemon_on h now (Stderr xs) s = s\<lparr>console := console s @ [LogRelay xs]\<rparr>"
| "nodemon_on h now Quit s = s\<lparr>promise := Resolved, exited := True\<rparr>"

text \<open>
  The events of one run, each with its instant. Once \<^verbatim>\<open>process.exit()\<close> was
  called (line 131) the process handles nothing more; and events are handled only
  when the handlers are registered, which is after the body of the promise has run
  to its end, hence in an environment whose messenger calls return.
\<close>

fun event_loop :: "host \<Rightarrow> (nat \<times> nodemon_event) list \<Rightarrow> watch_state \<Rightarrow> watch_state" where
  "event_loop h [] s = s"
| "event_loop h ((t, ev) # evs) s =
     (if exited s then s
      else if listening s then event_loop h evs (nodemon_on h t ev (run_timers t s))
      else s)"

section \<open>The command \<^verbatim>\<open>apollo:run\<close>\<close>

text \<open>
  \<^verbatim>\<open>process.env\<close>: a table of strings. Reading a missing variable gives
  \<^verbatim>\<open>undefined\<close>; a value assigned to a variable is stored as its string.
\<close>

type_synonym env = "string \<rightharpoonup> string"

definition getenv :: "env \<Rightarrow> string \<Rightarrow> jsval" where
  "getenv e k = (case e k of None \<Rightarrow> JUndefined | Some s \<Rightarrow> JStr s)"

definition setenv :: "env \<Rightarrow> string \<Rightarrow> jsval \<Rightarrow> env" where
  "setenv e k v = e(k \<mapsto> toString v)"

text \<open>
  The options given to the server (lines 157-179). The fields that come from the
  plugin options through \<^verbatim>\<open>./utils\<close> are left out.
\<close>

record server_opts =
  port :: jsval
  graphqlPath :: jsval
  subscriptionsPath :: jsval
  engineKey :: jsval

record run_state = module_state +
  process_env :: env
  server_started :: "(server_opts \<times> env) option"

text \<open>Line 147\<close>

definition resolve_port :: "args \<Rightarrow> env \<Rightarrow> jsval" where
  "resolve_port a e = js_or (js_or (getProp a ''port'') (getenv e ''VUE_APP_GRAPHQL_PORT'')) (JNum 4000)"

text \<open>
  Lines 142-181: \<^verbatim>\<open>run\<close> up to the call of the server, which is recorded with
  its options and the environment it starts in.
\<close>

definition run :: "args \<Rightarrow> run_state \<Rightarrow> run_state" where
  "run a s =
     (let port = resolve_port a (process_env s);
          e1 = setenv (process_env s) ''VUE_APP_GRAPHQL_PORT'' port;
          graphqlPath = js_or (getenv e1 ''VUE_APP_GRAPHQL_PATH'') (JStr ''/graphql'');
          subscriptionsPath = js_or (getenv e1 ''VUE_APP_GRAPHQL_SUBSCRIPTIONS_PATH'') (JStr ''/graphql'');
          engineKey = js_or (getenv e1 ''VUE_APP_APOLLO_ENGINE_KEY'') JNull;
          opts = \<lparr>port = port, graphqlPath = graphqlPath,
                  subscriptionsPath = subscriptionsPath, engineKey = engineKey\<rparr>
      in s\<lparr>process_env := e1, server_started := Some (opts, e1)\<rparr>)"

text \<open>Lines 182-186: the status the callback of the server sends.\<close>

definition ready_message :: "jsval \<Rightarrow> jsval \<Rightarrow> jsval" where
  "ready_message portv pathv =
     JObj [(''urls'',
            JObj [(''playground'', JStr (''http://localhost:'' @ toString portv @ toString pathv))])]"

text \<open>
  The callback given to the server (lines 181-187); it closes over \<^verbatim>\<open>port\<close> and
  \<^verbatim>\<open>graphqlPath\<close>, read here from the options the server was started with. Before
  \<^verbatim>\<open>run\<close> there is no server and no callback.
\<close>

definition server_callback :: "host \<Rightarrow> nat \<Rightarrow> run_state \<Rightarrow> run_state" where
  "server_callback h now s =
     (case server_started s of
        None \<Rightarrow> s
      | Some (opts, e) \<Rightarrow>
          sendIpcMessage (IpcMessenger h) now (ready_message (port opts) (graphqlPath opts)) s)"

text \<open>Lines 190-194: \<^verbatim>\<open>run\<close> is called at once, or by a timeout of 300 ms.\<close>

datatype schedule = Immediately | AfterTimeout nat

definition apollo_run_schedule :: "args \<Rightarrow> schedule" where
  "apollo_run_schedule a = (if truthy (getProp a ''delay'') then AfterTimeout 300 else Immediately)"

section \<open>Notions used in the proofs about paths\<close>

text \<open>
  A name is a segment that normalisation keeps as it is. The directory that
  \<^verbatim>\<open>api.resolve\<close> starts from is the project's directory, taken relative to the
  working directory when it is not absolute; \<open>resolved_segments\<close> are the segments of
  the path \<^verbatim>\<open>api.resolve\<close> returns.
\<close>

definition is_name :: "string \<Rightarrow> bool" where
  "is_name seg = (seg \<noteq> [] \<and> seg \<noteq> ''.'' \<and> seg \<noteq> ''..'')"

definition base_dir :: "host \<Rightarrow> string" where
  "base_dir h =
     (if project_dir h = [] then cwd h
      else if isAbsolute (project_dir h) then project_dir h
      else cwd h @ ''/'' @ project_dir h)"

definition base_segments :: "host \<Rightarrow> string list" where
  "base_segments h = foldl (normalize_step False) [] (split_on CHR ''/'' (base_dir h))"

definition resolved_segments :: "host \<Rightarrow> string \<Rightarrow> string list" where
  "resolved_segments h p =
     foldl (normalize_step False) (if isAbsolute p then [] else base_segments h)
       (split_on CHR ''/'' p)"

section \<open>Flattened arguments\<close>

lemma hasOwnProperty_plain:
  "a ''hasOwnProperty'' = None \<Longrightarrow> hasOwnProperty a k = Inr (a k \<noteq> None)"
  by (simp add: hasOwnProperty_def)


lemma flatArgs_loop_step:
  "a ''hasOwnProperty'' = None \<Longrightarrow>
   flatArgs_loop (key # keys) a acc = flatArgs_loop keys a (acc @ flag_contribution a key)"
  by (simp add: hasOwnProperty_plain flag_contribution_def getProp_def substr2_def Let_def
        split: option.splits)

lemma flatArgs_loop_contributions:
  "a ''hasOwnProperty'' = None \<Longrightarrow>
   flatArgs_loop keys a acc = Inr (acc @ concat (map (flag_contribution a) keys))"
proof (induction keys arbitrary: acc)
  case Nil
  then show ?case by simp
next
  case (Cons key keys)
  show ?case
    using Cons.IH [OF Cons.prems] Cons.prems
    by (simp add: flatArgs_loop_step del: flatArgs_loop.simps)
qed







section \<open>The messenger and the supervisor\<close>

lemma sent_payloads_append: "sent_payloads (xs @ ys) = sent_payloads xs @ sent_payloads ys"
  by (induction xs rule: sent_payloads.induct) simp_all

lemma sendIpcMessage_calls:
  "ipc_calls (sendIpcMessage True t m s) =
     ipc_calls s @ (if ipc s then [] else [IpcNew, IpcConnect]) @
     [IpcSend (JObj [(''org.akryum.vue-apollo'', m)])]"
  by (simp add: sendIpcMessage_def Let_def)

lemma sendIpcMessage_ipc: "ipc (sendIpcMessage True t m s)"
  by (simp add: sendIpcMessage_def Let_def)

lemma sendIpcMessage_timer: "ipcTimer (sendIpcMessage True t m s) = Some (t + 3000)"
  by (simp add: sendIpcMessage_def Let_def)

lemma sendIpcMessage_sent:
  "sent_payloads (ipc_calls (sendIpcMessage True t m s)) = sent_payloads (ipc_calls s) @ [m]"
  by (simp add: sendIpcMessage_calls sent_payloads_append)

lemma sendIpcMessage_no_transport: "\<not> ipc s \<Longrightarrow> sendIpcMessage False t m s = s"
  by (simp add: sendIpcMessage_def)

lemma run_timers_sent: "sent_payloads (ipc_calls (run_timers t s)) = sent_payloads (ipc_calls s)"
  by (simp add: run_timers_def ipcTimer_callback_def sent_payloads_append split: option.splits)

lemma run_timers_before: "ipcTimer s = Some due \<Longrightarrow> t < due \<Longrightarrow> run_timers t s = s"
  by (simp add: run_timers_def)

lemma run_timers_due:
  "ipcTimer s = Some due \<Longrightarrow> due \<le> t \<Longrightarrow> run_timers t s = ipcTimer_callback s"
  by (simp add: run_timers_def)

lemma notify_all_snoc:
  "notify_all b (ms @ [(t, m)]) s = sendIpcMessage b t m (run_timers t (notify_all b ms s))"
  by (induction ms arbitrary: s) auto

text \<open>
  C3. With a transport available, after any sequence of \<^verbatim>\<open>sendIpcMessage\<close> calls
  that ends with a call at instant \<open>t\<close>, the channel is open and the idle timer is due at
  \<open>t + 3000\<close>. As long as fewer than 3000 ms have passed nothing is closed; once 3000 ms
  have passed without another call the channel is disconnected and unset; a call that
  arrives before that (at 2999 ms, say) finds the channel open, only sends, and re-arms
  the timer for 3000 ms after itself.
\<close>

theorem idle_timer_reset:
  "let s1 = notify_all True (ms @ [(t, m)]) s in
     ipc s1 \<and> ipcTimer s1 = Some (t + 3000)
     \<and> (\<forall>t'. t' < t + 3000 \<longrightarrow> run_timers t' s1 = s1)
     \<and> (\<forall>t'. t + 3000 \<le> t' \<longrightarrow>
           \<not> ipc (run_timers t' s1) \<and> ipcTimer (run_timers t' s1) = None
           \<and> ipc_calls (run_timers t' s1) = ipc_calls s1 @ [IpcDisconnect])
     \<and> (\<forall>t' m'. t' < t + 3000 \<longrightarrow>
           (let s2 = notify_all True [(t', m')] s1 in
              ipc s2 \<and> ipcTimer s2 = Some (t' + 3000)
              \<and> ipc_calls s2 = ipc_calls s1 @ [IpcSend (JObj [(''org.akryum.vue-apollo'', m')])]))"
proof -
  define s1 where "s1 = notify_all True (ms @ [(t, m)]) s"
  have open1: "ipc s1" and timer1: "ipcTimer s1 = Some (t + 3000)"
    by (simp_all add: s1_def notify_all_snoc sendIpcMessage_ipc sendIpcMessage_timer)
  have early: "run_timers t' s1 = s1" if "t' < t + 3000" for t'
    using run_timers_before [OF timer1 that] .
  have late: "\<not> ipc (run_timers t' s1) \<and> ipcTimer (run_timers t' s1) = None
      \<and> ipc_calls (run_timers t' s1) = ipc_calls s1 @ [IpcDisconnect]" if "t + 3000 \<le> t'" for t'
    using run_timers_due [OF timer1 that] by (simp add: ipcTimer_callback_def)
  have again: "ipc (notify_all True [(t', m')] s1)
      \<and> ipcTimer (notify_all True [(t', m')] s1) = Some (t' + 3000)
      \<and> ipc_calls (notify_all True [(t', m')] s1)
          = ipc_calls s1 @ [IpcSend (JObj [(''org.akryum.vue-apollo'', m')])]"
    if "t' < t + 3000" for t' m'
    using early [OF that] open1
    by (simp add: sendIpcMessage_ipc sendIpcMessage_timer sendIpcMessage_calls)
  show ?thesis
    unfolding Let_def s1_def [symmetric] using open1 timer1 early late again by blast
qed

theorem idle_timer_reset_witness:
  "ipc_calls (run_timers 2999 (notify_all True [(0, JNull)] module_init))
     = [IpcNew, IpcConnect, IpcSend (JObj [(''org.akryum.vue-apollo'', JNull)])]
   \<and> ipc_calls (run_timers 3000 (notify_all True [(0, JNull)] module_init))
     = [IpcNew, IpcConnect, IpcSend (JObj [(''org.akryum.vue-apollo'', JNull)]), IpcDisconnect]
   \<and> ipc_calls (run_timers 5998 (notify_all True [(2999, JNull)] (notify_all True [(0, JNull)] module_init)))
     = [IpcNew, IpcConnect, IpcSend (JObj [(''org.akryum.vue-apollo'', JNull)]),
        IpcSend (JObj [(''org.akryum.vue-apollo'', JNull)])]"
  using idle_timer_reset [of "[]" 0 JNull module_init]
  by (simp add: Let_def module_init_def sendIpcMessage_def run_timers_def ipcTimer_callback_def)

lemma notify_all_no_transport: "\<not> ipc s \<Longrightarrow> ipcTimer s = None \<Longrightarrow> notify_all False ms s = s"
  by (induction ms arbitrary: s) (auto simp: run_timers_def sendIpcMessage_def)

lemma event_loop_exited: "exited s \<Longrightarrow> event_loop h evs s = s"
  by (cases evs) auto


lemma rejected_fields:
  "ipc_calls (rejected m cfg) = ipc_calls m" "promise (rejected m cfg) = Rejected"
  "\<not> listening (rejected m cfg)" "\<not> exited (rejected m cfg)"
  by (simp_all add: rejected_def module_state.defs)

lemma run_timers_watch_fields:
  "promise (run_timers t s) = promise s" "exited (run_timers t s) = exited s"
  "nodemon (run_timers t s) = nodemon s" "console (run_timers t s) = console s"
  "listening (run_timers t s) = listening s"
  by (simp_all add: run_timers_def ipcTimer_callback_def split: option.splits)

lemma sendIpcMessage_watch_fields:
  "promise (sendIpcMessage b t m s) = promise s" "exited (sendIpcMessage b t m s) = exited s"
  "nodemon (sendIpcMessage b t m s) = nodemon s" "console (sendIpcMessage b t m s) = console s"
  "listening (sendIpcMessage b t m s) = listening s"
  by (simp_all add: sendIpcMessage_def Let_def)

lemma nodemon_on_listening: "listening (nodemon_on h t ev s) = listening s"
  by (cases ev) (simp_all add: sendIpcMessage_watch_fields)

lemma no_transport_quiet:
  "\<not> IpcMessenger h \<Longrightarrow> \<not> ipc s \<Longrightarrow> ipcTimer s = None \<Longrightarrow>
   ipc_calls (event_loop h evs s) = ipc_calls s"
proof (induction evs arbitrary: s)
  case Nil
  then show ?case by simp
next
  case (Cons x evs)
  obtain t ev where x: "x = (t, ev)" by (cases x)
  have rt: "run_timers t s = s"
    using Cons.prems by (simp add: run_timers_def)
  have keep: "\<not> ipc (nodemon_on h t ev s) \<and> ipcTimer (nodemon_on h t ev s) = None
      \<and> ipc_calls (nodemon_on h t ev s) = ipc_calls s"
    using Cons.prems by (cases ev) (simp_all add: sendIpcMessage_def)
  show ?case
    using Cons.IH [of "nodemon_on h t ev s"] Cons.prems keep x rt by simp
qed

lemma no_transport_watch:
  "\<not> IpcMessenger h \<Longrightarrow>
   ipc_calls (event_loop h evs (apollo_watch_promise h b a t0 module_init)) = []"
proof -
  assume h: "\<not> IpcMessenger h"
  define s0 where "s0 = apollo_watch_promise h b a t0 module_init"
  have "\<not> ipc s0" "ipcTimer s0 = None" "ipc_calls s0 = []"
    using h
    by (simp_all add: s0_def apollo_watch_promise_def rejected_def sendIpcMessage_def
          module_state.defs module_init_def split: jsval.splits)
  then show ?thesis
    using no_transport_quiet [OF h, of s0 evs] by (simp add: s0_def)
qed

text \<open>
  C5. \<^verbatim>\<open>sendIpcMessage\<close> opens the channel lazily: with a transport and the channel
  unset, the call constructs the messenger and connects it before it sends; with the
  channel set it only sends. Without a transport a call sends nothing and leaves the
  state as it was, so no sequence of calls ever touches a messenger, and neither does a
  whole run of the watch command.
\<close>

theorem lazy_channel:
  "(\<not> ipc s \<longrightarrow>
      ipc (sendIpcMessage True t m s)
      \<and> ipc_calls (sendIpcMessage True t m s)
          = ipc_calls s @ [IpcNew, IpcConnect, IpcSend (JObj [(''org.akryum.vue-apollo'', m)])])
   \<and> (ipc s \<longrightarrow>
      ipc_calls (sendIpcMessage True t m s)
          = ipc_calls s @ [IpcSend (JObj [(''org.akryum.vue-apollo'', m)])])
   \<and> (\<not> ipc s \<longrightarrow> sendIpcMessage False t m s = s)
   \<and> notify_all False ms module_init = module_init
   \<and> ipc_calls (notify_all False ms module_init) = []
   \<and> (\<not> IpcMessenger h \<longrightarrow>
        ipc_calls (event_loop h evs (apollo_watch_promise h b a t0 module_init)) = [])"
proof -
  have "notify_all False ms module_init = module_init"
    by (rule notify_all_no_transport) (simp_all add: module_init_def)
  moreover have "ipc_calls module_init = []"
    by (simp add: module_init_def)
  ultimately show ?thesis
    by (simp add: sendIpcMessage_calls sendIpcMessage_ipc sendIpcMessage_no_transport
          no_transport_watch)
qed

theorem lazy_channel_witness:
  "ipc_calls (sendIpcMessage True 0 JNull module_init)
     = [IpcNew, IpcConnect, IpcSend (JObj [(''org.akryum.vue-apollo'', JNull)])]
   \<and> ipc_calls (sendIpcMessage True 10 JNull (sendIpcMessage True 0 JNull module_init))
     = [IpcNew, IpcConnect, IpcSend (JObj [(''org.akryum.vue-apollo'', JNull)]),
        IpcSend (JObj [(''org.akryum.vue-apollo'', JNull)])]
   \<and> sendIpcMessage False 0 JNull module_init = module_init"
  using lazy_channel [of module_init 0 JNull "[]"]
        lazy_channel [of "sendIpcMessage True 0 JNull module_init" 10 JNull "[]"]
  by (simp add: module_init_def sendIpcMessage_ipc)

lemma nodemon_on_promise:
  "promise (nodemon_on h t ev s) = (if ev = Quit then Resolved else promise s)"
  by (cases ev) (simp_all add: sendIpcMessage_watch_fields)

lemma nodemon_on_exited:
  "exited (nodemon_on h t ev s) = (ev = Quit \<or> exited s)"
  by (cases ev) (simp_all add: sendIpcMessage_watch_fields)

lemma nodemon_on_settings: "nodemon (nodemon_on h t ev s) = nodemon s"
  by (cases ev) (simp_all add: sendIpcMessage_watch_fields)

lemma nodemon_on_sent:
  "IpcMessenger h \<Longrightarrow>
   sent_payloads (ipc_calls (nodemon_on h t ev s)) =
     sent_payloads (ipc_calls s) @
     (case ev of
        Restart \<Rightarrow> [JObj [(''error'', JBool False)]]
      | Crash \<Rightarrow> [JObj [(''urls'', JNull), (''error'', JBool True)]]
      | _ \<Rightarrow> [])"
  by (cases ev) (simp_all add: sendIpcMessage_sent)

lemma nodemon_on_quiet:
  "\<not> IpcMessenger h \<Longrightarrow> \<not> ipc s \<Longrightarrow> ipc_calls (nodemon_on h t ev s) = ipc_calls s"
  by (cases ev) (simp_all add: sendIpcMessage_def)

lemma run_timers_unset: "\<not> ipc s \<Longrightarrow> \<not> ipc (run_timers t s)"
  by (simp add: run_timers_def ipcTimer_callback_def split: option.splits)

lemma event_loop_single:
  "\<not> exited s \<Longrightarrow> listening s \<Longrightarrow>
   event_loop h [(t, ev)] s = nodemon_on h t ev (run_timers t s)"
  by simp


text \<open>When the body of the promise runs to its end, and what it leaves otherwise.\<close>

lemma promise_body_completes:
  "listening (apollo_watch_promise h b flat t0 m) \<longleftrightarrow>
     (\<exists>folder. b = JStr folder) \<and> \<not> nodemon_throws h
     \<and> \<not> (messenger_throws h \<and> (ipc m \<or> IpcMessenger h))"
  by (cases b)
     (simp_all add: apollo_watch_promise_def rejected_fields sendIpcMessage_watch_fields
        module_state.defs)

lemma promise_body_completed:
  assumes "listening (apollo_watch_promise h b flat t0 m)"
  shows "promise (apollo_watch_promise h b flat t0 m) = Pending"
    and "\<not> exited (apollo_watch_promise h b flat t0 m)"
    and "sent_payloads (ipc_calls (apollo_watch_promise h b flat t0 m))
         = sent_payloads (ipc_calls m) @ (if ipc m \<or> IpcMessenger h then [JObj [(''error'', JBool False)]] else [])"
proof -
  obtain folder where b: "b = JStr folder"
    and ok: "\<not> nodemon_throws h" "\<not> (messenger_throws h \<and> (ipc m \<or> IpcMessenger h))"
    using assms unfolding promise_body_completes by blast
  have s0: "apollo_watch_promise h b flat t0 m =
      sendIpcMessage (IpcMessenger h) t0 (JObj [(''error'', JBool False)])
        (module_state.extend m
           \<lparr>nodemon = Some (nodemon_config h folder flat), console = [],
            promise = Pending, exited = False, listening = True\<rparr>)"
    using ok by (auto simp: b apollo_watch_promise_def)
  show "promise (apollo_watch_promise h b flat t0 m) = Pending"
    and "\<not> exited (apollo_watch_promise h b flat t0 m)"
    by (simp_all add: s0 sendIpcMessage_watch_fields module_state.defs)
  show "sent_payloads (ipc_calls (apollo_watch_promise h b flat t0 m))
         = sent_payloads (ipc_calls m) @ (if ipc m \<or> IpcMessenger h then [JObj [(''error'', JBool False)]] else [])"
    unfolding s0
    by (simp add: sendIpcMessage_def Let_def module_state.defs sent_payloads_append)
qed





text \<open>
  C4 (as amended). When nodemon reports a crash while the supervisor is running, the
  status \<^verbatim>\<open>{urls: null, error: true}\<close> is given to \<^verbatim>\<open>sendIpcMessage\<close>: with a
  transport it is sent, wrapped under the key \<^verbatim>\<open>org.akryum.vue-apollo\<close>; without one
  (and so with no channel) nothing is sent. Either way the two lines of the crash notice
  are printed, the promise stays as it was, the process has not exited, the handlers stay
  registered and the watch settings are unchanged, and a later restart event is still
  handled: its notice is printed and, with a transport, it is announced.
\<close>

theorem crash_reported:
  assumes "listening s" and "\<not> exited s"
  shows "let s1 = event_loop h [(t, Crash)] s in
           (IpcMessenger h \<longrightarrow>
              sent_payloads (ipc_calls s1)
                = sent_payloads (ipc_calls s) @ [JObj [(''urls'', JNull), (''error'', JBool True)]]
              \<and> last (ipc_calls s1)
                = IpcSend (JObj [(''org.akryum.vue-apollo'',
                                  JObj [(''urls'', JNull), (''error'', JBool True)])]))
           \<and> (\<not> IpcMessenger h \<and> \<not> ipc s \<longrightarrow>
                sent_payloads (ipc_calls s1) = sent_payloads (ipc_calls s))
           \<and> console s1 = console s @ [LogCrashed, LogWaiting]
           \<and> promise s1 = promise s \<and> \<not> exited s1 \<and> listening s1 \<and> nodemon s1 = nodemon s
           \<and> (\<forall>t1. console (event_loop h [(t1, Restart)] s1) = console s1 @ [LogRestarting]
                \<and> (IpcMessenger h \<longrightarrow>
                     sent_payloads (ipc_calls (event_loop h [(t1, Restart)] s1))
                       = sent_payloads (ipc_calls s1) @ [JObj [(''error'', JBool False)]]))"
proof -
  define s1 where "s1 = event_loop h [(t, Crash)] s"
  have s1: "s1 = nodemon_on h t Crash (run_timers t s)"
    using assms by (simp add: s1_def)
  have sent: "sent_payloads (ipc_calls s1)
      = sent_payloads (ipc_calls s) @ [JObj [(''urls'', JNull), (''error'', JBool True)]]"
    if "IpcMessenger h"
    using that by (simp add: s1 nodemon_on_sent run_timers_sent del: nodemon_on.simps)
  have lst: "last (ipc_calls s1)
      = IpcSend (JObj [(''org.akryum.vue-apollo'', JObj [(''urls'', JNull), (''error'', JBool True)])])"
    if "IpcMessenger h"
    using that by (simp add: s1 sendIpcMessage_calls)
  have quiet: "sent_payloads (ipc_calls s1) = sent_payloads (ipc_calls s)"
    if "\<not> IpcMessenger h \<and> \<not> ipc s"
    using that nodemon_on_quiet [of h "run_timers t s" t Crash] run_timers_unset [of s t]
    by (simp add: s1 run_timers_sent del: nodemon_on.simps)
  have printed: "console s1 = console s @ [LogCrashed, LogWaiting]"
    by (simp add: s1 sendIpcMessage_watch_fields run_timers_watch_fields)
  have keep: "promise s1 = promise s" "\<not> exited s1" "listening s1" "nodemon s1 = nodemon s"
    using assms
    by (simp_all add: s1 nodemon_on_promise nodemon_on_exited nodemon_on_settings
          nodemon_on_listening run_timers_watch_fields del: nodemon_on.simps)
  have later1: "console (event_loop h [(t1, Restart)] s1) = console s1 @ [LogRestarting]" for t1
    using keep(2,3)
    by (simp add: sendIpcMessage_watch_fields run_timers_watch_fields)
  have later2: "sent_payloads (ipc_calls (event_loop h [(t1, Restart)] s1))
      = sent_payloads (ipc_calls s1) @ [JObj [(''error'', JBool False)]]"
    if "IpcMessenger h" for t1
    using that keep(2,3) by (simp add: nodemon_on_sent run_timers_sent del: nodemon_on.simps)
  show ?thesis
    unfolding Let_def s1_def [symmetric]
    using sent lst quiet printed keep later1 later2 by blast
qed

theorem crash_reported_witness:
  "sent_payloads (ipc_calls (event_loop example_host [(10, Crash)]
      (apollo_watch_promise example_host (JStr ''./apollo-server'') [] 0 module_init)))
     = [JObj [(''error'', JBool False)], JObj [(''urls'', JNull), (''error'', JBool True)]]
   \<and> promise (event_loop example_host [(10, Crash)]
      (apollo_watch_promise example_host (JStr ''./apollo-server'') [] 0 module_init)) = Pending"
proof -
  define s0 where "s0 = apollo_watch_promise example_host (JStr ''./apollo-server'') [] 0 module_init"
  have l: "listening s0"
    by (simp add: s0_def promise_body_completes example_host_def)
  have e: "\<not> exited s0" and p: "promise s0 = Pending"
    and s: "sent_payloads (ipc_calls s0) = [JObj [(''error'', JBool False)]]"
    using promise_body_completed [of example_host "JStr ''./apollo-server''" "[]" 0 module_init] l
    by (simp_all add: s0_def example_host_def module_init_def)
  have "IpcMessenger example_host"
    by (simp add: example_host_def)
  then show ?thesis
    using crash_reported [OF l e, of example_host 10] p s
    unfolding Let_def s0_def [symmetric] by simp
qed

text \<open>
  C4 as stated has the status sent whenever the child crashes. On a host without a
  messenger the same crash sends nothing.
\<close>

theorem crash_not_sent_without_transport:
  "sent_payloads (ipc_calls (event_loop quiet_host [(10, Crash)]
      (apollo_watch_promise quiet_host (JStr ''./apollo-server'') [] 0 module_init))) = []"
proof -
  have "\<not> IpcMessenger quiet_host"
    by (simp add: quiet_host_def)
  then show ?thesis
    by (simp add: no_transport_watch del: event_loop.simps)
qed

lemma event_loop_count:
  "IpcMessenger h \<Longrightarrow> \<not> exited s \<Longrightarrow> listening s \<Longrightarrow>
   count_list (sent_payloads (ipc_calls (event_loop h evs s))) (JObj [(''error'', JBool False)])
     = count_list (sent_payloads (ipc_calls s)) (JObj [(''error'', JBool False)])
       + count_list (map snd (takeWhile (\<lambda>e. snd e \<noteq> Quit) evs)) Restart"
proof (induction evs arbitrary: s)
  case Nil
  then show ?case by simp
next
  case (Cons x evs)
  obtain t ev where x: "x = (t, ev)" by (cases x)
  show ?case
  proof (cases "ev = Quit")
    case True
    then show ?thesis
      using Cons.prems x by (simp add: event_loop_exited run_timers_sent)
  next
    case False
    then have live: "\<not> exited (nodemon_on h t ev (run_timers t s))"
      "listening (nodemon_on h t ev (run_timers t s))"
      using Cons.prems
      by (simp_all add: nodemon_on_exited nodemon_on_listening run_timers_watch_fields)
    show ?thesis
      using Cons.IH [OF Cons.prems(1) live] Cons.prems x False
      by (cases ev) (simp_all add: nodemon_on_sent run_timers_sent del: nodemon_on.simps)
  qed
qed

text \<open>
  C6 (as amended). When the body of the promise has run to its end and a transport is
  available, the status \<^verbatim>\<open>{error: false}\<close> is sent once at the start, before any event
  is handled, and once for every restart event, whatever the state of the child; a crash
  sends a different status and no other event sends anything, so that over a whole run the
  number of \<^verbatim>\<open>{error: false}\<close> statuses is one more than the number of restart events
  handled before the quit. Without a transport no status is sent at all.
\<close>

theorem error_false_at_start_and_restart:
  assumes "listening (apollo_watch_promise h b flat t0 module_init)"
  shows "(IpcMessenger h \<longrightarrow>
            sent_payloads (ipc_calls (apollo_watch_promise h b flat t0 module_init))
              = [JObj [(''error'', JBool False)]]
            \<and> count_list
                 (sent_payloads (ipc_calls (event_loop h evs (apollo_watch_promise h b flat t0 module_init))))
                 (JObj [(''error'', JBool False)])
               = 1 + count_list (map snd (takeWhile (\<lambda>e. snd e \<noteq> Quit) evs)) Restart)
    \<and> (\<forall>t ev s. IpcMessenger h \<and> listening s \<and> \<not> exited s \<longrightarrow>
          sent_payloads (ipc_calls (event_loop h [(t, ev)] s))
            = sent_payloads (ipc_calls s) @
              (case ev of
                 Restart \<Rightarrow> [JObj [(''error'', JBool False)]]
               | Crash \<Rightarrow> [JObj [(''urls'', JNull), (''error'', JBool True)]]
               | _ \<Rightarrow> []))
    \<and> (\<not> IpcMessenger h \<longrightarrow>
          sent_payloads (ipc_calls (event_loop h evs (apollo_watch_promise h b flat t0 module_init))) = [])"
proof -
  define s0 where "s0 = apollo_watch_promise h b flat t0 module_init"
  have l: "listening s0"
    using assms by (simp add: s0_def)
  have e: "\<not> exited s0"
    using promise_body_completed(2) [OF assms] by (simp add: s0_def)
  have start: "sent_payloads (ipc_calls s0) = [JObj [(''error'', JBool False)]]"
    if "IpcMessenger h"
    using that promise_body_completed(3) [OF assms] by (simp add: s0_def module_init_def)
  have count: "count_list (sent_payloads (ipc_calls (event_loop h evs s0)))
         (JObj [(''error'', JBool False)])
       = 1 + count_list (map snd (takeWhile (\<lambda>e. snd e \<noteq> Quit) evs)) Restart"
    if "IpcMessenger h"
    using event_loop_count [OF that e l, of evs] start [OF that] by simp
  have step: "sent_payloads (ipc_calls (event_loop h [(t, ev)] s))
            = sent_payloads (ipc_calls s) @
              (case ev of
                 Restart \<Rightarrow> [JObj [(''error'', JBool False)]]
               | Crash \<Rightarrow> [JObj [(''urls'', JNull), (''error'', JBool True)]]
               | _ \<Rightarrow> [])"
    if "IpcMessenger h \<and> listening s \<and> \<not> exited s" for t ev s
    using that by (simp add: nodemon_on_sent run_timers_sent del: nodemon_on.simps)
  have none: "sent_payloads (ipc_calls (event_loop h evs s0)) = []" if "\<not> IpcMessenger h"
    using no_transport_watch [OF that, of evs b flat t0] by (simp add: s0_def)
  show ?thesis
    unfolding s0_def [symmetric] using start count step none by blast
qed

theorem error_false_at_start_and_restart_witness:
  "count_list (sent_payloads (ipc_calls (event_loop example_host
      [(10, Stdout []), (20, Restart), (30, Crash), (40, Restart), (50, Quit), (60, Restart)]
      (apollo_watch_promise example_host (JStr ''./apollo-server'') [] 0 module_init))))
     (JObj [(''error'', JBool False)]) = 3"
proof -
  have l: "listening (apollo_watch_promise example_host (JStr ''./apollo-server'') [] 0 module_init)"
    by (simp add: promise_body_completes example_host_def)
  have "IpcMessenger example_host"
    by (simp add: example_host_def)
  then show ?thesis
    using error_false_at_start_and_restart [OF l, of
      "[(10, Stdout []), (20, Restart), (30, Crash), (40, Restart), (50, Quit), (60, Restart)]"]
    by simp
qed

text \<open>
  C6 as stated has the status sent at the start and on every restart. On a host without
  a messenger a run with a restart sends it neither at the start nor on the restart.
\<close>

theorem error_false_not_sent_without_transport:
  "count_list (sent_payloads (ipc_calls (event_loop quiet_host [(20, Restart)]
      (apollo_watch_promise quiet_host (JStr ''./apollo-server'') [] 0 module_init))))
     (JObj [(''error'', JBool False)]) = 0"
proof -
  have "\<not> IpcMessenger quiet_host"
    by (simp add: quiet_host_def)
  then show ?thesis
    by (simp add: no_transport_watch del: event_loop.simps)
qed

lemma toString_4000: "toString (JNum 4000) = ''4000''"
  by (simp add: int_to_dec_def nat_to_dec.simps digit_char_def)

lemma getenv_setenv_other: "k \<noteq> k1 \<Longrightarrow> getenv (setenv e k v) k1 = getenv e k1"
  by (simp add: getenv_def setenv_def)

lemma server_callback_run:
  "server_callback h t (run a s) =
     sendIpcMessage (IpcMessenger h) t
       (ready_message (resolve_port a (process_env s))
          (js_or (getenv (process_env s) ''VUE_APP_GRAPHQL_PATH'') (JStr ''/graphql'')))
       (run a s)"
  by (simp add: server_callback_def run_def Let_def getenv_setenv_other)

lemma run_calls: "ipc_calls (run a s) = ipc_calls s"
  by (simp add: run_def Let_def)

text \<open>
  C2 (as amended). When the server calls back and a transport is available, the status
  sent is \<^verbatim>\<open>{urls: {playground: "http://localhost:<port><graphqlPath>"}}\<close>, for the
  port and path resolved from the arguments and the environment; it has no
  \<^verbatim>\<open>error\<close> field.
\<close>

theorem ready_payload_urls_only:
  assumes "IpcMessenger h"
  shows "let portv = resolve_port a (process_env s);
             pathv = js_or (getenv (process_env s) ''VUE_APP_GRAPHQL_PATH'') (JStr ''/graphql'');
             payload = JObj [(''urls'',
               JObj [(''playground'', JStr (''http://localhost:'' @ toString portv @ toString pathv))])]
         in sent_payloads (ipc_calls (server_callback h t (run a s)))
              = sent_payloads (ipc_calls s) @ [payload]
            \<and> last (ipc_calls (server_callback h t (run a s)))
              = IpcSend (JObj [(''org.akryum.vue-apollo'', payload)])
            \<and> \<not> hasField payload ''error''
            \<and> getField payload ''error'' = JUndefined"
proof -
  define payload where "payload = ready_message (resolve_port a (process_env s))
      (js_or (getenv (process_env s) ''VUE_APP_GRAPHQL_PATH'') (JStr ''/graphql''))"
  have cb: "server_callback h t (run a s) = sendIpcMessage True t payload (run a s)"
    using assms by (simp add: server_callback_run payload_def)
  have sent: "sent_payloads (ipc_calls (server_callback h t (run a s)))
      = sent_payloads (ipc_calls s) @ [payload]"
    by (simp only: cb sendIpcMessage_sent run_calls)
  have lst: "last (ipc_calls (server_callback h t (run a s)))
      = IpcSend (JObj [(''org.akryum.vue-apollo'', payload)])"
    by (simp add: cb sendIpcMessage_calls)
  have none: "\<not> hasField payload ''error''" "getField payload ''error'' = JUndefined"
    by (simp_all add: payload_def ready_message_def)
  show ?thesis
    using sent lst none unfolding Let_def payload_def ready_message_def by simp
qed

theorem ready_payload_urls_only_witness:
  "sent_payloads (ipc_calls (server_callback
      example_host 0
      (run [''port'' \<mapsto> JStr ''5000'']
         \<lparr>ipc = False, ipcTimer = None, ipc_calls = [],
          process_env = [''VUE_APP_GRAPHQL_PATH'' \<mapsto> ''/api''], server_started = None\<rparr>)))
   = [JObj [(''urls'', JObj [(''playground'', JStr ''http://localhost:5000/api'')])]]"
  using ready_payload_urls_only [of
      example_host
      "[''port'' \<mapsto> JStr ''5000'']"
      "\<lparr>ipc = False, ipcTimer = None, ipc_calls = [],
        process_env = [''VUE_APP_GRAPHQL_PATH'' \<mapsto> ''/api''], server_started = None\<rparr>" 0]
  by (simp add: Let_def resolve_port_def js_or_def getProp_def getenv_def example_host_def)

text \<open>
  C2 as stated puts an \<^verbatim>\<open>error\<close> field equal to false in the ready status. With no
  arguments and an empty environment the status sent is
  \<^verbatim>\<open>{urls: {playground: "http://localhost:4000/graphql"}}\<close>, whose \<^verbatim>\<open>error\<close> is
  undefined.
\<close>

theorem ready_payload_has_no_error_field:
  "sent_payloads (ipc_calls (server_callback
      example_host 0
      (run Map.empty
         \<lparr>ipc = False, ipcTimer = None, ipc_calls = [],
          process_env = Map.empty, server_started = None\<rparr>)))
   = [JObj [(''urls'', JObj [(''playground'', JStr ''http://localhost:4000/graphql'')])]]
   \<and> getField (JObj [(''urls'', JObj [(''playground'', JStr ''http://localhost:4000/graphql'')])])
        ''error'' \<noteq> JBool False"
  by (simp add: server_callback_run sendIpcMessage_sent run_calls ready_message_def
        resolve_port_def js_or_def getProp_def getenv_def toString_4000 example_host_def
        del: toString.simps(4))

section \<open>The port of \<^verbatim>\<open>apollo:run\<close>\<close>



section \<open>The watch settings\<close>

lemma split_on_nonempty: "split_on c s \<noteq> []"
  by (induction s) (auto split: list.splits)

lemma split_on_append: "split_on c (xs @ c # ys) = split_on c xs @ split_on c ys"
  by (induction xs) (auto simp: split_on_nonempty split: list.splits)

lemma split_on_no_sep: "c \<notin> set s \<Longrightarrow> split_on c s = [s]"
  by (induction s) auto

lemma split_on_segments: "seg \<in> set (split_on c s) \<Longrightarrow> c \<notin> set seg"
  by (induction s arbitrary: seg) (auto split: if_splits list.splits)

lemma split_on_snoc_sep: "split_on c (xs @ [c]) = split_on c xs @ [[]]"
  using split_on_append [of c xs "[]"] by simp

lemma split_intercalate:
  "segs \<noteq> [] \<Longrightarrow> \<forall>seg\<in>set segs. CHR ''/'' \<notin> set seg \<Longrightarrow>
   split_on CHR ''/'' (intercalate ''/'' segs) = segs"
proof (induction "''/''" segs rule: intercalate.induct)
  case 1
  then show ?case by simp
next
  case (2 x)
  then show ?case by (simp add: split_on_no_sep)
next
  case (3 x y ys)
  have "split_on CHR ''/'' (x @ CHR ''/'' # intercalate ''/'' (y # ys))
      = split_on CHR ''/'' x @ split_on CHR ''/'' (intercalate ''/'' (y # ys))"
    by (rule split_on_append)
  with 3 show ?case by (simp add: split_on_no_sep)
qed

lemma intercalate_snoc: "xs \<noteq> [] \<Longrightarrow> intercalate sep (xs @ [y]) = intercalate sep xs @ sep @ y"
  by (induction sep xs rule: intercalate.induct) auto

lemma intercalate_nonempty: "xs \<noteq> [] \<Longrightarrow> hd xs \<noteq> [] \<Longrightarrow> intercalate sep xs \<noteq> []"
  by (induction sep xs rule: intercalate.induct) auto

lemma intercalate_hd: "xs \<noteq> [] \<Longrightarrow> hd xs \<noteq> [] \<Longrightarrow> hd (intercalate sep xs) = hd (hd xs)"
  by (induction sep xs rule: intercalate.induct) auto

lemma step_name: "is_name seg \<Longrightarrow> normalize_step a res seg = res @ [seg]"
  by (simp add: normalize_step_def is_name_def)

lemma step_empty: "normalize_step a res [] = res"
  by (simp add: normalize_step_def)

lemma fold_names:
  "\<forall>seg\<in>set ys. is_name seg \<Longrightarrow> foldl (normalize_step a) st ys = st @ ys"
  by (induction ys arbitrary: st) (auto simp: step_name)

lemma step_subset: "set (normalize_step a res seg) \<subseteq> set res \<union> {seg}"
  by (auto simp: normalize_step_def dest: in_set_butlastD)

lemma fold_subset: "set (foldl (normalize_step a) st xs) \<subseteq> set st \<union> set xs"
proof (induction xs arbitrary: st)
  case Nil
  then show ?case by simp
next
  case (Cons x xs)
  show ?case
    using Cons.IH [of "normalize_step a st x"] step_subset [of a st x] by auto
qed

lemma step_no_dot:
  "\<forall>seg\<in>set res. seg \<noteq> [] \<and> seg \<noteq> ''.'' \<Longrightarrow>
   \<forall>seg\<in>set (normalize_step a res x). seg \<noteq> [] \<and> seg \<noteq> ''.''"
  by (auto simp: normalize_step_def dest: in_set_butlastD)

lemma fold_no_dot:
  "\<forall>seg\<in>set st. seg \<noteq> [] \<and> seg \<noteq> ''.'' \<Longrightarrow>
   \<forall>seg\<in>set (foldl (normalize_step a) st xs). seg \<noteq> [] \<and> seg \<noteq> ''.''"
proof (induction xs arbitrary: st)
  case Nil
  then show ?case by simp
next
  case (Cons x xs)
  show ?case
    using Cons.IH [OF step_no_dot [OF Cons.prems]] by simp
qed

lemma step_abs_names:
  "\<forall>seg\<in>set res. is_name seg \<Longrightarrow> \<forall>seg\<in>set (normalize_step False res x). is_name seg"
  by (auto simp: normalize_step_def is_name_def dest: in_set_butlastD)

lemma fold_abs_names:
  "\<forall>seg\<in>set st. is_name seg \<Longrightarrow> \<forall>seg\<in>set (foldl (normalize_step False) st xs). is_name seg"
proof (induction xs arbitrary: st)
  case Nil
  then show ?case by simp
next
  case (Cons x xs)
  show ?case
    using Cons.IH [OF step_abs_names [OF Cons.prems]] by simp
qed

lemma step_after_relative:
  assumes "\<forall>seg\<in>set r. seg \<noteq> [] \<and> seg \<noteq> ''.''"
  shows "foldl (normalize_step False) st (normalize_step True r x)
         = normalize_step False (foldl (normalize_step False) st r) x"
proof (cases "x = ''..'' \<and> r \<noteq> [] \<and> last r \<noteq> ''..''")
  case True
  then obtain r1 n where r: "r = r1 @ [n]" and n: "n \<noteq> ''..''"
    by (metis append_butlast_last_id)
  have "is_name n"
    using assms n by (simp add: r is_name_def)
  then have "foldl (normalize_step False) st r = foldl (normalize_step False) st r1 @ [n]"
    by (simp add: r step_name)
  then show ?thesis
    using True n by (simp add: r normalize_step_def)
next
  case False
  then show ?thesis
    by (auto simp: normalize_step_def)
qed

lemma fold_after_relative:
  "foldl (normalize_step False) st (foldl (normalize_step True) [] xs)
   = foldl (normalize_step False) st xs"
proof (induction xs rule: rev_induct)
  case Nil
  then show ?case by simp
next
  case (snoc x xs)
  have "\<forall>seg\<in>set (foldl (normalize_step True) [] xs). seg \<noteq> [] \<and> seg \<noteq> ''.''"
    by (rule fold_no_dot) simp
  from step_after_relative [OF this] snoc show ?case by simp
qed

lemma normalized_clean:
  "seg \<in> set (foldl (normalize_step a) [] (split_on CHR ''/'' p)) \<Longrightarrow> CHR ''/'' \<notin> set seg"
  using fold_subset [of a "[]" "split_on CHR ''/'' p"] split_on_segments by fastforce

lemma normalized_live:
  "foldl (normalize_step a) st (xs @ [''live'']) = foldl (normalize_step a) st xs @ [''live'']"
  by (simp add: step_name is_name_def)

lemma path_join_live:
  "path_join [b, ''live''] =
     (if isAbsolute b then ''/'' else []) @
     intercalate ''/'' (foldl (normalize_step (\<not> isAbsolute b)) [] (split_on CHR ''/'' b) @ [''live''])"
proof (cases "b = []")
  case True
  then show ?thesis
    by (simp add: path_join_def path_normalize_def normalizeString_def normalize_segments_def
          isAbsolute_def normalize_step_def)
next
  case False
  define joined where "joined = b @ ''/live''"
  have abs: "isAbsolute joined = isAbsolute b"
    using False by (simp add: joined_def isAbsolute_def)
  have segs: "split_on CHR ''/'' joined = split_on CHR ''/'' b @ [''live'']"
    using split_on_append [of "CHR ''/''" b "''live''"] by (simp add: joined_def)
  have norm: "normalizeString joined (\<not> isAbsolute joined)
      = intercalate ''/'' (foldl (normalize_step (\<not> isAbsolute b)) [] (split_on CHR ''/'' b) @ [''live''])"
    by (simp only: normalizeString_def normalize_segments_def segs abs normalized_live)
  have nonempty: "normalizeString joined (\<not> isAbsolute joined) \<noteq> []"
  proof (cases "foldl (normalize_step (\<not> isAbsolute b)) [] (split_on CHR ''/'' b)")
    case Nil
    then show ?thesis by (simp add: norm)
  next
    case (Cons x xs)
    have "x \<noteq> []"
      using fold_no_dot [of "[]" "\<not> isAbsolute b" "split_on CHR ''/'' b"] Cons by simp
    then show ?thesis
      using Cons by (simp add: norm intercalate_nonempty)
  qed
  have "path_join [b, ''live''] = path_normalize joined"
    using False by (simp add: path_join_def joined_def)
  also have "\<dots> = (if isAbsolute b then ''/'' else []) @ normalizeString joined (\<not> isAbsolute joined)"
    using nonempty by (simp add: path_normalize_def Let_def abs) (simp add: joined_def)
  finally show ?thesis
    by (simp only: norm)
qed

lemma resolve_loop_base:
  "isAbsolute (cwd h) \<Longrightarrow>
   resolve_loop [project_dir h, cwd h] acc = (base_dir h @ ''/'' @ acc, True)"
  by (auto simp: base_dir_def isAbsolute_def)

lemma fold_trailing_empty:
  "foldl (normalize_step a) st (xs @ [[]]) = foldl (normalize_step a) st xs"
  by (simp add: step_empty)

lemma api_resolve_absolute:
  "isAbsolute x \<Longrightarrow>
   api_resolve h x = CHR ''/'' # intercalate ''/'' (foldl (normalize_step False) [] (split_on CHR ''/'' x))"
  by (simp add: api_resolve_def path_resolve_def normalizeString_def normalize_segments_def
        split_on_snoc_sep step_empty isAbsolute_def)

lemma api_resolve_relative:
  assumes "isAbsolute (cwd h)" and "\<not> isAbsolute x"
  shows "api_resolve h x =
     CHR ''/'' # intercalate ''/'' (foldl (normalize_step False) (base_segments h) (split_on CHR ''/'' x))"
proof (cases "x = []")
  case True
  have "resolve_loop [x, project_dir h, cwd h] [] = resolve_loop [project_dir h, cwd h] []"
    using True by simp
  then have loop: "resolve_loop [x, project_dir h, cwd h] [] = (base_dir h @ ''/'', True)"
    using assms(1) by (simp only: resolve_loop_base append_Nil2)
  show ?thesis
    using True loop
    by (simp add: api_resolve_def path_resolve_def normalizeString_def
          normalize_segments_def base_segments_def step_empty split_on_snoc_sep
          del: resolve_loop.simps)
next
  case False
  have "resolve_loop [x, project_dir h, cwd h] [] = resolve_loop [project_dir h, cwd h] (x @ ''/'')"
    using False assms(2) by simp
  then have loop: "resolve_loop [x, project_dir h, cwd h] [] = (base_dir h @ ''/'' @ x @ ''/'', True)"
    using assms(1) by (simp only: resolve_loop_base)
  have "split_on CHR ''/'' (base_dir h @ CHR ''/'' # (x @ ''/''))
      = split_on CHR ''/'' (base_dir h) @ split_on CHR ''/'' (x @ ''/'')"
    by (rule split_on_append)
  then have segs: "split_on CHR ''/'' (base_dir h @ CHR ''/'' # x @ ''/'')
      = split_on CHR ''/'' (base_dir h) @ split_on CHR ''/'' x @ [[]]"
    by (simp add: split_on_snoc_sep)
  show ?thesis
    by (simp add: api_resolve_def path_resolve_def loop normalizeString_def normalize_segments_def
          segs base_segments_def step_empty del: resolve_loop.simps)
qed

lemma base_segments_names: "\<forall>seg\<in>set (base_segments h). is_name seg"
  unfolding base_segments_def by (rule fold_abs_names) simp

lemma resolved_segments_names: "\<forall>seg\<in>set (resolved_segments h p). is_name seg"
  unfolding resolved_segments_def by (rule fold_abs_names) (simp add: base_segments_names)

lemma api_resolve_segments:
  "isAbsolute (cwd h) \<Longrightarrow> api_resolve h p = CHR ''/'' # intercalate ''/'' (resolved_segments h p)"
  by (simp add: resolved_segments_def api_resolve_absolute api_resolve_relative)

lemma api_resolve_join_live:
  assumes "isAbsolute (cwd h)"
  shows "api_resolve h (path_join [b, ''live''])
         = CHR ''/'' # intercalate ''/'' (resolved_segments h b @ [''live''])"
proof (cases "isAbsolute b")
  case True
  define nb where "nb = foldl (normalize_step False) [] (split_on CHR ''/'' b)"
  have names: "\<forall>seg\<in>set nb. is_name seg"
    unfolding nb_def by (rule fold_abs_names) simp
  have clean: "\<forall>seg\<in>set (nb @ [''live'']). CHR ''/'' \<notin> set seg"
    using normalized_clean [of _ False b] by (auto simp: nb_def)
  have join: "path_join [b, ''live''] = CHR ''/'' # intercalate ''/'' (nb @ [''live''])"
    using True by (simp add: path_join_live nb_def)
  have "split_on CHR ''/'' (path_join [b, ''live'']) = [] # (nb @ [''live''])"
    using split_intercalate [OF _ clean] by (simp add: join)
  moreover have "foldl (normalize_step False) [] ([] # (nb @ [''live''])) = nb @ [''live'']"
    using fold_names [of "nb @ [''live'']" False "[]"] names by (simp add: step_empty is_name_def)
  moreover have "isAbsolute (path_join [b, ''live''])"
    by (simp add: join isAbsolute_def)
  ultimately show ?thesis
    using True by (simp add: api_resolve_absolute resolved_segments_def nb_def)
next
  case False
  define nb where "nb = foldl (normalize_step True) [] (split_on CHR ''/'' b)"
  have nodot: "\<forall>seg\<in>set nb. seg \<noteq> [] \<and> seg \<noteq> ''.''"
    unfolding nb_def by (rule fold_no_dot) simp
  have clean: "\<forall>seg\<in>set (nb @ [''live'']). CHR ''/'' \<notin> set seg"
    using normalized_clean [of _ True b] by (auto simp: nb_def)
  have join: "path_join [b, ''live''] = intercalate ''/'' (nb @ [''live''])"
    using False by (simp add: path_join_live nb_def)
  have segs: "split_on CHR ''/'' (path_join [b, ''live'']) = nb @ [''live'']"
    using split_intercalate [OF _ clean] by (simp add: join)
  have first: "hd (nb @ [''live'']) \<noteq> [] \<and> CHR ''/'' \<notin> set (hd (nb @ [''live'']))"
    using nodot clean by (cases nb) auto
  then have "hd (path_join [b, ''live'']) = hd (hd (nb @ [''live'']))"
    by (simp add: join intercalate_hd)
  with first have "hd (path_join [b, ''live'']) \<noteq> CHR ''/''"
    by (metis hd_in_set)
  then have rel: "\<not> isAbsolute (path_join [b, ''live''])"
    by (simp add: isAbsolute_def)
  have "foldl (normalize_step False) (base_segments h) (nb @ [''live''])
      = foldl (normalize_step False) (base_segments h) (split_on CHR ''/'' b) @ [''live'']"
    unfolding normalized_live nb_def by (simp only: fold_after_relative)
  then show ?thesis
    using False by (simp add: api_resolve_relative [OF assms rel] segs resolved_segments_def)
qed

lemma root_is_slash:
  "CHR ''/'' # intercalate ''/'' (resolved_segments h p) = ''/'' \<longleftrightarrow> resolved_segments h p = []"
proof (cases "resolved_segments h p")
  case Nil
  then show ?thesis by simp
next
  case (Cons x xs)
  have "x \<noteq> []"
    using resolved_segments_names [of h p] Cons by (simp add: is_name_def)
  then show ?thesis
    using Cons intercalate_nonempty [of "x # xs" "''/''"] by simp
qed

lemma ignore_is_live_under_root:
  assumes "isAbsolute (cwd h)"
  shows "api_resolve h (path_join [b, ''live''])
         = (if api_resolve h b = ''/'' then ''/live'' else api_resolve h b @ ''/live'')"
proof -
  have live: "api_resolve h (path_join [b, ''live''])
      = CHR ''/'' # intercalate ''/'' (resolved_segments h b @ [''live''])"
    by (rule api_resolve_join_live [OF assms])
  have root: "api_resolve h b = CHR ''/'' # intercalate ''/'' (resolved_segments h b)"
    by (rule api_resolve_segments [OF assms])
  show ?thesis
  proof (cases "resolved_segments h b = []")
    case True
    then show ?thesis
      unfolding live root by simp
  next
    case False
    then have "CHR ''/'' # intercalate ''/'' (resolved_segments h b) \<noteq> ''/''"
      using root_is_slash [of h b] by simp
    then show ?thesis
      unfolding live root using False by (simp add: intercalate_snoc)
  qed
qed

lemma watched_extensions_config:
  "watched_extensions (nodemon_config h b a) = [''js'', ''mjs'', ''json'', ''graphql'', ''gql'']"
  by (simp add: watched_extensions_def nodemon_config_def)


text \<open>
  C8. For every base folder, the settings given to nodemon watch the resolved base
  folder alone and ignore exactly its \<^verbatim>\<open>live\<close> subdirectory, so every ignore path lies
  under the watch root and differs from it. With the watcher as the specification
  describes it, a change to a path under \<^verbatim>\<open><root>/live\<close> causes no restart, and a
  change to a path under the root and outside \<^verbatim>\<open>live\<close> whose extension is watched
  causes one. (The working directory of a process is an absolute path.)
\<close>

theorem ignore_under_watch_root:
  assumes "isAbsolute (cwd h)"
  shows "let cfg = nodemon_config h baseFolder a;
             root = api_resolve h baseFolder;
             live = (if root = ''/'' then ''/live'' else root @ ''/live'')
         in watch cfg = [root] \<and> ignore cfg = [live]
            \<and> (\<forall>ig\<in>set (ignore cfg). under_path root ig \<and> ig \<noteq> root)
            \<and> (\<forall>file. under_path live file \<longrightarrow> \<not> triggers_restart cfg file)
            \<and> (\<forall>file. under_path root file \<and> \<not> under_path live file
                  \<and> file_extension file \<in> set [''js'', ''mjs'', ''json'', ''graphql'', ''gql'']
                  \<longrightarrow> triggers_restart cfg file)"
proof -
  define cfg where "cfg = nodemon_config h baseFolder a"
  define root where "root = api_resolve h baseFolder"
  define live where "live = (if root = ''/'' then ''/live'' else root @ ''/live'')"
  have w: "watch cfg = [root]"
    by (simp add: cfg_def root_def nodemon_config_def)
  have i: "ignore cfg = [live]"
    using ignore_is_live_under_root [OF assms, of baseFolder]
    by (simp add: cfg_def root_def live_def nodemon_config_def)
  have sub: "under_path root live \<and> live \<noteq> root"
    by (simp add: under_path_def live_def)
  have exts: "set (watched_extensions cfg) = set [''js'', ''mjs'', ''json'', ''graphql'', ''gql'']"
    by (simp only: cfg_def watched_extensions_config)
  have quiet: "\<not> triggers_restart cfg f" if "under_path live f" for f
    using that by (simp add: triggers_restart_def i)
  have fires: "triggers_restart cfg f"
    if "under_path root f \<and> \<not> under_path live f
        \<and> file_extension f \<in> set [''js'', ''mjs'', ''json'', ''graphql'', ''gql'']" for f
    using that unfolding triggers_restart_def w i exts by simp
  show ?thesis
    unfolding Let_def cfg_def [symmetric] root_def [symmetric] live_def [symmetric]
    using w i sub quiet fires by simp
qed

lemma example_root: "api_resolve example_host ''./apollo-server'' = ''/proj/apollo-server''"
  by code_simp

lemma example_files:
  "under_path ''/proj/apollo-server/live'' ''/proj/apollo-server/live/x.json''"
  "under_path ''/proj/apollo-server'' ''/proj/apollo-server/resolvers.js''"
  "\<not> under_path ''/proj/apollo-server/live'' ''/proj/apollo-server/resolvers.js''"
  "file_extension ''/proj/apollo-server/resolvers.js'' = ''js''"
  by code_simp+

theorem ignore_under_watch_root_witness:
  "watch (nodemon_config example_host ''./apollo-server'' []) = [''/proj/apollo-server'']
   \<and> ignore (nodemon_config example_host ''./apollo-server'' []) = [''/proj/apollo-server/live'']
   \<and> \<not> triggers_restart (nodemon_config example_host ''./apollo-server'' [])
         ''/proj/apollo-server/live/x.json''
   \<and> triggers_restart (nodemon_config example_host ''./apollo-server'' [])
         ''/proj/apollo-server/resolvers.js''"
proof -
  have "isAbsolute (cwd example_host)"
    by (simp add: example_host_def isAbsolute_def)
  from ignore_under_watch_root [OF this, of "''./apollo-server''" "[]"]
  show ?thesis
    unfolding Let_def example_root using example_files by simp
qed

section \<open>The launch command\<close>

text \<open>
  The command nodemon executes holds \<^verbatim>\<open>--delay\<close> before the flattened arguments,
  whatever the arguments are, and the flattened arguments hold it again when the
  arguments have a \<^verbatim>\<open>delay\<close> property. In \<^verbatim>\<open>apollo:run\<close> the timeout of 300 ms is
  taken exactly when the \<^verbatim>\<open>delay\<close> argument of that process is truthy: it is for the
  value \<^verbatim>\<open>true\<close> of a bare flag, and it is not for 0 or for a missing argument.
\<close>

lemma exec_holds_delay:
  "exec (nodemon_config h b flat) = cmd h @ '' run apollo:run --delay '' @ js_join '' '' flat"
  by (simp add: nodemon_config_def)

lemma user_delay_flattened:
  assumes "a ''hasOwnProperty'' = None" and "a ''delay'' = Some v"
  shows "\<exists>pre post. flatArgs a = Inr (pre @ [JStr ''--delay''] @ post)"
proof -
  have "\<exists>post. flag_contribution a ''--delay'' = JStr ''--delay'' # post"
    using assms(2) by (simp add: flag_contribution_def)
  then obtain post where "flag_contribution a ''--delay'' = JStr ''--delay'' # post" ..
  then have "flatArgs a = Inr
      ((flag_contribution a ''--mock'' @ flag_contribution a ''--enable-engine'') @
       [JStr ''--delay''] @ (post @ flag_contribution a ''--port''))"
    using flatArgs_loop_contributions [of a "map fst COMMAND_OPTIONS" "[]"] assms(1)
    by (simp add: flatArgs_def COMMAND_OPTIONS_def)
  then show ?thesis by blast
qed

lemma delay_branch:
  "apollo_run_schedule a = AfterTimeout 300 \<longleftrightarrow> truthy (getProp a ''delay'')"
  "apollo_run_schedule [''delay'' \<mapsto> JBool True] = AfterTimeout 300"
  "apollo_run_schedule [''delay'' \<mapsto> JNum 0] = Immediately"
  "apollo_run_schedule Map.empty = Immediately"
  by (simp_all add: apollo_run_schedule_def getProp_def)

end
